theory Spec2Isabelle
  imports Complex_Main "HOL-Library.AList"
begin

section \<open>Python values shared by both source files\<close>

text \<open>
  Exceptions are values. Every constructor stands for a subclass of Python's
  \<^verbatim>\<open>Exception\<close>; cancellation and interpreter exit (which derive from
  \<^verbatim>\<open>BaseException\<close> only) are outside the model.
\<close>

datatype exn = TimeoutError | ClientError | ValueError | IndexError | KeyError
  | FileNotFoundError | RuntimeError

section \<open>endpoint.py: the translation client\<close>

text \<open>
  One HTTP attempt of \<^verbatim>\<open>translate_text\<close> has three kinds of outcome: the
  request times out (\<^verbatim>\<open>asyncio.TimeoutError\<close>), some other exception is raised by the
  transport, the status check or the JSON decoder, or a JSON body arrives. Of the body only
  two things are read: whether it has an \<^verbatim>\<open>"error"\<close> key, and the string found at
  \<^verbatim>\<open>choices[0].message.content\<close> (\<open>None\<close> when that path does not lead to a
  string, in which case the subscripting or \<^verbatim>\<open>.strip()\<close> raises).
\<close>

datatype attempt = TimedOut | Errored | Reply bool "string option"

text \<open>Python's \<^verbatim>\<open>str.strip()\<close>; characters are code points below 256.\<close>

definition is_space :: "char \<Rightarrow> bool" where
  "is_space c \<longleftrightarrow>
     (let n = of_char c :: nat
      in (9 \<le> n \<and> n \<le> 13) \<or> (28 \<le> n \<and> n \<le> 32) \<or> n = 133 \<or> n = 160)"

definition lstrip :: "string \<Rightarrow> string" where
  "lstrip s = dropWhile is_space s"

definition rstrip :: "string \<Rightarrow> string" where
  "rstrip s = rev (dropWhile is_space (rev s))"

definition strip :: "string \<Rightarrow> string" where
  "strip s = rstrip (lstrip s)"

text \<open>
  The body of the \<^verbatim>\<open>try\<close> block: the value it returns, or the exception it
  raises.
\<close>

fun attempt_result :: "attempt \<Rightarrow> exn + string" where
  "attempt_result TimedOut = Inl TimeoutError"
| "attempt_result Errored = Inl ClientError"
| "attempt_result (Reply has_error content) =
     (if has_error then Inl RuntimeError
      else case content of None \<Rightarrow> Inl KeyError | Some c \<Rightarrow> Inr (strip c))"

text \<open>
  The \<^verbatim>\<open>while retry_count <= max_retries\<close> loop. \<open>post k\<close> is the outcome of
  the attempt made while \<^verbatim>\<open>retry_count\<close> is \<open>k\<close>. The result is the returned
  value (\<open>None\<close> is Python's \<^verbatim>\<open>None\<close>, returned when the loop body never runs) or
  an escaping exception, together with the arguments of the \<^verbatim>\<open>asyncio.sleep\<close>
  calls in the order they were made. The delay \<^verbatim>\<open>retry_delay * retry_count\<close> is taken
  as the exact product. The two handlers differ in what they log only; logging and
  sleeping are taken to return normally.
\<close>

function translate_text_loop ::
  "(int \<Rightarrow> attempt) \<Rightarrow> string \<Rightarrow> int \<Rightarrow> real \<Rightarrow> int \<Rightarrow> real list
     \<Rightarrow> (exn + string option) \<times> real list" where
  "translate_text_loop post text max_retries retry_delay retry_count slept =
     (if retry_count \<le> max_retries then
        (case attempt_result (post retry_count) of
           Inr translated \<Rightarrow> (Inr (Some translated), slept)
         | Inl TimeoutError \<Rightarrow>
             (let retry_count' = retry_count + 1 in
              if retry_count' \<le> max_retries
              then translate_text_loop post text max_retries retry_delay retry_count'
                     (slept @ [retry_delay * of_int retry_count'])
              else (Inr (Some text), slept))
         | Inl e \<Rightarrow>
             (let retry_count' = retry_count + 1 in
              if retry_count' \<le> max_retries
              then translate_text_loop post text max_retries retry_delay retry_count'
                     (slept @ [retry_delay * of_int retry_count'])
              else (Inr (Some text), slept)))
      else (Inr None, slept))"
  by pat_completeness auto
termination
  by (relation "measure (\<lambda>(post, text, max_retries, retry_delay, retry_count, slept).
        nat (max_retries + 1 - retry_count))") auto

declare translate_text_loop.simps [simp del]

definition translate_text ::
  "(int \<Rightarrow> attempt) \<Rightarrow> string \<Rightarrow> int \<Rightarrow> real \<Rightarrow> (exn + string option) \<times> real list" where
  "translate_text post text max_retries retry_delay =
     translate_text_loop post text max_retries retry_delay 0 []"


section \<open>endpoint.py: the bounded dispatcher\<close>

text \<open>
  What the batch cannot control: \<open>api lang i k\<close> is the outcome of the attempt that
  unit \<open>i\<close> makes while its \<^verbatim>\<open>retry_count\<close> is \<open>k\<close>, and \<open>fault i\<close> is an
  exception raised in the body of \<^verbatim>\<open>translate_with_semaphore\<close> for unit \<open>i\<close>
  outside \<^verbatim>\<open>translate_text\<close>'s own handlers (by the progress bar, say).
\<close>

record env =
  api :: "string \<Rightarrow> nat \<Rightarrow> int \<Rightarrow> attempt"
  fault :: "nat \<Rightarrow> exn option"

type_synonym task_result = "exn + (nat \<times> string option)"

text \<open>
  The body of \<^verbatim>\<open>translate_with_semaphore\<close> between acquiring and releasing the
  semaphore; \<^verbatim>\<open>translate_text\<close> is called with its defaults
  \<^verbatim>\<open>max_retries=3\<close> and \<^verbatim>\<open>retry_delay=2.0\<close>.
\<close>

definition translate_with_semaphore :: "env \<Rightarrow> string \<Rightarrow> string \<Rightarrow> nat \<Rightarrow> task_result" where
  "translate_with_semaphore ev target_language text index =
     (case fault ev index of
        Some e \<Rightarrow> Inl e
      | None \<Rightarrow>
          (case fst (translate_text (api ev target_language index) text 3 2) of
             Inl e \<Rightarrow> Inl e
           | Inr result \<Rightarrow> Inr (index, result)))"

text \<open>
  The event loop interleaves the tasks. A task waits for the semaphore, then runs inside
  \<^verbatim>\<open>async with semaphore\<close>, then is done with the value it returned or the exception
  it raised. \<open>permits\<close> is the semaphore's counter. \<open>Acquire i\<close> lets task \<open>i\<close> enter,
  which needs a positive counter and decrements it; \<open>Release i\<close> is task \<open>i\<close> leaving the
  block, by return or by exception, which increments the counter.
\<close>

datatype task = Waiting | Running | Done task_result

record batch_state =
  tasks :: "task list"
  permits :: int

datatype event = Acquire nat | Release nat

fun step :: "env \<Rightarrow> string list \<Rightarrow> string \<Rightarrow> event \<Rightarrow> batch_state \<Rightarrow> batch_state option" where
  "step ev texts target_language (Acquire i) s =
     (if i < length (tasks s) \<and> tasks s ! i = Waiting \<and> 0 < permits s
      then Some (s\<lparr>tasks := (tasks s)[i := Running], permits := permits s - 1\<rparr>)
      else None)"
| "step ev texts target_language (Release i) s =
     (if i < length (tasks s) \<and> tasks s ! i = Running
      then Some (s\<lparr>tasks := (tasks s)[i := Done (translate_with_semaphore ev target_language (texts ! i) i)],
                   permits := permits s + 1\<rparr>)
      else None)"

text \<open>A schedule is a sequence of events; it is a run when every event is enabled in turn.\<close>

fun run :: "env \<Rightarrow> string list \<Rightarrow> string \<Rightarrow> event list \<Rightarrow> batch_state \<Rightarrow> batch_state option" where
  "run ev texts target_language [] s = Some s"
| "run ev texts target_language (e # es) s =
     (case step ev texts target_language e s of
        None \<Rightarrow> None
      | Some s' \<Rightarrow> run ev texts target_language es s')"

text \<open>\<^verbatim>\<open>asyncio.Semaphore(value)\<close> refuses a negative initial value.\<close>

definition semaphore_init :: "int \<Rightarrow> exn + int" where
  "semaphore_init v = (if v < 0 then Inl ValueError else Inr v)"

definition initial :: "string list \<Rightarrow> int \<Rightarrow> batch_state" where
  "initial texts v = \<lparr>tasks = replicate (length texts) Waiting, permits = v\<rparr>"

definition in_flight :: "batch_state \<Rightarrow> nat" where
  "in_flight s = length (filter (\<lambda>t. t = Running) (tasks s))"

fun done_result :: "task \<Rightarrow> task_result option" where
  "done_result (Done r) = Some r"
| "done_result Waiting = None"
| "done_result Running = None"

text \<open>
  \<^verbatim>\<open>asyncio.gather(*tasks, return_exceptions=True)\<close> completes when every task is
  done and delivers the results in the order of the tasks, an exception standing in for
  the result of the task that raised it. \<open>None\<close>: the schedule is not a run, or it stops
  before every task is done.
\<close>

definition gather ::
  "env \<Rightarrow> string list \<Rightarrow> string \<Rightarrow> event list \<Rightarrow> batch_state \<Rightarrow> task_result list option" where
  "gather ev texts target_language sched s =
     (case run ev texts target_language sched s of
        None \<Rightarrow> None
      | Some s' \<Rightarrow> those (map done_result (tasks s')))"

text \<open>
  The loop over \<^verbatim>\<open>enumerate(results)\<close> that builds
  \<^verbatim>\<open>processed_results\<close>; \<^verbatim>\<open>texts[i]\<close> raises when \<open>i\<close> is out of range.
\<close>

fun process_results ::
  "string list \<Rightarrow> (nat \<times> task_result) list \<Rightarrow> (nat \<times> string option) list
     \<Rightarrow> exn + (nat \<times> string option) list" where
  "process_results texts [] processed = Inr processed"
| "process_results texts ((i, Inl e) # rest) processed =
     (if i < length texts
      then process_results texts rest (processed @ [(i, Some (texts ! i))])
      else Inl IndexError)"
| "process_results texts ((i, Inr p) # rest) processed =
     process_results texts rest (processed @ [p])"

text \<open>
  \<^verbatim>\<open>translate_batch\<close> under a schedule of the event loop. \<open>None\<close> means that the
  schedule is not a complete execution of the batch; \<open>Some (Inl e)\<close> that the call raises
  \<open>e\<close>; \<open>Some (Inr out)\<close> that it returns the list \<open>out\<close>.
\<close>

definition translate_batch ::
  "env \<Rightarrow> string list \<Rightarrow> string \<Rightarrow> int \<Rightarrow> event list \<Rightarrow> (exn + string option list) option" where
  "translate_batch ev texts target_language max_concurrency sched =
     (case semaphore_init max_concurrency of
        Inl e \<Rightarrow> Some (Inl e)
      | Inr v \<Rightarrow>
          (case gather ev texts target_language sched (initial texts v) of
             None \<Rightarrow> None
           | Some results \<Rightarrow>
               (case process_results texts (enumerate 0 results) [] of
                  Inl e \<Rightarrow> Some (Inl e)
                | Inr processed_results \<Rightarrow>
                    Some (Inr (map snd (sort_key fst processed_results))))))"

text \<open>The outcome the batch owes to the unit at position \<open>i\<close>.\<close>

definition unit_outcome :: "env \<Rightarrow> string list \<Rightarrow> string \<Rightarrow> nat \<Rightarrow> string option" where
  "unit_outcome ev texts target_language i =
     (case translate_with_semaphore ev target_language (texts ! i) i of
        Inl e \<Rightarrow> Some (texts ! i)
      | Inr (j, result) \<Rightarrow> result)"

text \<open>
  What every state of a run satisfies: no task is lost, a finished task holds the outcome of
  its own unit, and the tasks inside the semaphore together with the free permits make up
  the initial value.
\<close>

definition batch_inv :: "env \<Rightarrow> string list \<Rightarrow> string \<Rightarrow> int \<Rightarrow> batch_state \<Rightarrow> bool" where
  "batch_inv ev texts target_language v s \<longleftrightarrow>
     length (tasks s) = length texts \<and>
     (\<forall>i < length texts. \<forall>r. tasks s ! i = Done r \<longrightarrow>
         r = translate_with_semaphore ev target_language (texts ! i) i) \<and>
     int (in_flight s) + permits s = v \<and> 0 \<le> permits s"

text \<open>The number of events a state can still take: two for a waiting task, one for a running one.\<close>

definition remaining :: "batch_state \<Rightarrow> nat" where
  "remaining s = 2 * length (filter (\<lambda>t. t = Waiting) (tasks s)) + in_flight s"

text \<open>
  A client for concrete runs: it answers the unit at position 0 with ``Bonjour'' and every
  other unit with ``Monde'', at once and without faults.
\<close>

definition mock_env :: env where
  "mock_env = \<lparr>api = (\<lambda>target_language i k.
                         if i = 0 then Reply False (Some ''Bonjour'')
                         else Reply False (Some ''Monde'')),
               fault = (\<lambda>i. None)\<rparr>"

section \<open>main.py: subtitle files\<close>

record SubtitleEntry =
  index :: int
  start_time :: string
  end_time :: string
  content :: string
  translated_content :: string

text \<open>
  The conversions of Python's library that \<^verbatim>\<open>parse_file\<close> calls are parameters:
  \<open>py_int\<close> and \<open>py_float\<close> are \<^verbatim>\<open>int(s)\<close> and \<^verbatim>\<open>float(s)\<close> (\<open>None\<close> when
  they raise \<^verbatim>\<open>ValueError\<close>), and \<open>fromtimestamp\<close> is
  \<^verbatim>\<open>datetime.fromtimestamp\<close>, whose results are only compared with each other.
\<close>

record 'k pylib =
  py_int :: "string \<Rightarrow> int option"
  py_float :: "string \<Rightarrow> real option"
  fromtimestamp :: "real \<Rightarrow> exn + 'k"

text \<open>A file system maps a path to the text that reading the file returns.\<close>

type_synonym files = "string \<Rightarrow> string option"

definition newline :: string where
  "newline = [CHR 0x0A]"

text \<open>
  \<^verbatim>\<open>s.split(sep)\<close> for a non-empty separator, scanning from the left; \<open>piece\<close> is
  the part read since the last separator.
\<close>

function split_from :: "string \<Rightarrow> string \<Rightarrow> string \<Rightarrow> string list" where
  "split_from sep piece s =
     (if s = [] then [piece]
      else if sep \<noteq> [] \<and> take (length sep) s = sep
        then piece # split_from sep [] (drop (length sep) s)
      else split_from sep (piece @ [hd s]) (tl s))"
  by pat_completeness auto
termination
  by (relation "measure (\<lambda>(sep, piece, s). length s)") auto

declare split_from.simps [simp del]

definition py_split :: "string \<Rightarrow> string \<Rightarrow> string list" where
  "py_split s sep = split_from sep [] s"

text \<open>\<^verbatim>\<open>sep.join(parts)\<close>.\<close>

fun py_join :: "string \<Rightarrow> string list \<Rightarrow> string" where
  "py_join sep [] = []"
| "py_join sep [p] = p"
| "py_join sep (p # q # ps) = p @ sep @ py_join sep (q # ps)"

text \<open>\<^verbatim>\<open>s.replace(',', '.')\<close>.\<close>

definition replace_comma :: "string \<Rightarrow> string" where
  "replace_comma s = map (\<lambda>c. if c = CHR '','' then CHR ''.'' else c) s"

text \<open>\<^verbatim>\<open>str(n)\<close> for an integer.\<close>

function digits_of :: "nat \<Rightarrow> string" where
  "digits_of n =
     (if n < 10 then [char_of (48 + n)]
      else digits_of (n div 10) @ [char_of (48 + n mod 10)])"
  by pat_completeness auto
termination
  by (relation "measure (\<lambda>n. n)") auto

declare digits_of.simps [simp del]

definition py_str :: "int \<Rightarrow> string" where
  "py_str i = (if i < 0 then CHR ''-'' # digits_of (nat (- i)) else digits_of (nat i))"

text \<open>
  \<^verbatim>\<open>parse_time\<close>: the stripped string and the \<^verbatim>\<open>datetime\<close> used as sort key.
  Subscripting a list that is too short raises \<^verbatim>\<open>IndexError\<close>.
\<close>

definition parse_time :: "'k pylib \<Rightarrow> string \<Rightarrow> exn + (string \<times> 'k)" where
  "parse_time lib time_str0 =
     (let time_str = strip time_str0;
          time_parts = py_split (replace_comma time_str) '':''
      in case py_int lib (time_parts ! 0) of
           None \<Rightarrow> Inl ValueError
         | Some hours \<Rightarrow>
             if length time_parts < 2 then Inl IndexError
             else (case py_int lib (time_parts ! 1) of
                 None \<Rightarrow> Inl ValueError
               | Some minutes \<Rightarrow>
                   if length time_parts < 3 then Inl IndexError
                   else (case py_float lib (time_parts ! 2) of
                       None \<Rightarrow> Inl ValueError
                     | Some seconds \<Rightarrow>
                         (case fromtimestamp lib
                                 (of_int hours * 3600 + of_int minutes * 60 + seconds) of
                            Inl e \<Rightarrow> Inl e
                          | Inr start_time_obj \<Rightarrow> Inr (time_str, start_time_obj)))))"

text \<open>
  One block of \<^verbatim>\<open>parse_file\<close>'s loop: \<open>None\<close> when the block is skipped
  (\<^verbatim>\<open>continue\<close>), otherwise the exception raised or the pair that is appended to
  \<^verbatim>\<open>self.entries\<close>. Unpacking \<^verbatim>\<open>time_line.split(' --> ')\<close> into two names
  raises \<^verbatim>\<open>ValueError\<close> unless there are exactly two parts. The entry is built
  without \<^verbatim>\<open>translated_content\<close>, which therefore takes its default, the empty string.
\<close>

definition parse_block :: "'k pylib \<Rightarrow> string \<Rightarrow> (exn + ('k \<times> SubtitleEntry)) option" where
  "parse_block lib block =
     (let lines = py_split (strip block) newline in
      if length lines < 3 then None
      else Some
        (case py_int lib (lines ! 0) of
           None \<Rightarrow> Inl ValueError
         | Some idx \<Rightarrow>
             (case py_split (lines ! 1) '' --> '' of
                [start_time_str0, end_time_str0] \<Rightarrow>
                  (case parse_time lib start_time_str0 of
                     Inl e \<Rightarrow> Inl e
                   | Inr (start_time_str, start_time_obj) \<Rightarrow>
                       (case parse_time lib end_time_str0 of
                          Inl e \<Rightarrow> Inl e
                        | Inr (end_time_str, end_time_obj) \<Rightarrow>
                            Inr (start_time_obj,
                                 \<lparr>index = idx, start_time = start_time_str,
                                  end_time = end_time_str,
                                  content = py_join newline (drop 2 lines),
                                  translated_content = []\<rparr>)))
              | _ \<Rightarrow> Inl ValueError)))"

fun parse_blocks ::
  "'k pylib \<Rightarrow> string list \<Rightarrow> ('k \<times> SubtitleEntry) list \<Rightarrow> exn + ('k \<times> SubtitleEntry) list" where
  "parse_blocks lib [] parsed = Inr parsed"
| "parse_blocks lib (block # blocks) parsed =
     (case parse_block lib block of
        None \<Rightarrow> parse_blocks lib blocks parsed
      | Some (Inl e) \<Rightarrow> Inl e
      | Some (Inr pair) \<Rightarrow> parse_blocks lib blocks (parsed @ [pair]))"

text \<open>
  \<^verbatim>\<open>parse_file\<close>: read, split into blocks, parse, sort by start time (the sort is
  stable) and renumber from 1.
\<close>

definition parse_file :: "('k::linorder) pylib \<Rightarrow> files \<Rightarrow> string \<Rightarrow> exn + SubtitleEntry list" where
  "parse_file lib fs file_path =
     (case fs file_path of
        None \<Rightarrow> Inl FileNotFoundError
      | Some text \<Rightarrow>
          (case parse_blocks lib (py_split (strip text) (newline @ newline)) [] of
             Inl e \<Rightarrow> Inl e
           | Inr parsed \<Rightarrow>
               Inr (map (\<lambda>(i, (start_time_obj, entry)). entry\<lparr>index := int i\<rparr>)
                      (enumerate 1 (sort_key fst parsed)))))"

text \<open>
  \<^verbatim>\<open>save_translated_srt\<close> with \<^verbatim>\<open>separate_languages=False\<close>: the text written to
  \<^verbatim>\<open>output_path\<close>.
\<close>

definition format_entry :: "SubtitleEntry \<Rightarrow> string" where
  "format_entry entry =
     py_str (index entry) @ newline @
     start_time entry @ '' --> '' @ end_time entry @ newline @
     content entry @ newline @
     (if translated_content entry \<noteq> [] then translated_content entry @ newline else []) @
     newline"

definition save_translated_srt :: "files \<Rightarrow> string \<Rightarrow> SubtitleEntry list \<Rightarrow> files" where
  "save_translated_srt fs output_path entries =
     fs(output_path \<mapsto> concat (map format_entry entries))"

section \<open>main.py: history reuse and merging\<close>

text \<open>
  \<^verbatim>\<open>history_map\<close> is a dictionary; as an association list with one pair per key,
  in insertion order, so that its length is \<^verbatim>\<open>len(history_map)\<close>.
\<close>

type_synonym history_map = "(string \<times> string) list"

text \<open>The loop over \<^verbatim>\<open>history_parser.entries\<close> that fills the dictionary.\<close>

fun build_history_map :: "SubtitleEntry list \<Rightarrow> history_map \<Rightarrow> history_map" where
  "build_history_map [] history_map = history_map"
| "build_history_map (entry # rest) history_map =
     (if translated_content entry \<noteq> []
      then build_history_map rest
             (AList.update (strip (content entry)) (strip (translated_content entry)) history_map)
      else build_history_map rest history_map)"

text \<open>
  The first part of \<^verbatim>\<open>translate_entries\<close>. \<^verbatim>\<open>history_file\<close> is \<open>None\<close> or a
  path; the history is read by a fresh parser, and any exception leaves the dictionary empty.
\<close>

definition load_history ::
  "('k::linorder) pylib \<Rightarrow> files \<Rightarrow> bool \<Rightarrow> string option \<Rightarrow> history_map" where
  "load_history lib fs use_history history_file =
     (case history_file of
        None \<Rightarrow> []
      | Some path \<Rightarrow>
          if use_history \<and> path \<noteq> [] then
            (case parse_file lib fs path of
               Inl e \<Rightarrow> []
             | Inr entries \<Rightarrow> build_history_map entries [])
          else [])"

text \<open>
  The loop that prepares \<^verbatim>\<open>texts_to_translate\<close>: the entries as it leaves them and
  the texts it collects.
\<close>

fun prepare_texts :: "history_map \<Rightarrow> SubtitleEntry list \<Rightarrow> SubtitleEntry list \<times> string list" where
  "prepare_texts history_map [] = ([], [])"
| "prepare_texts history_map (entry # rest) =
     (let clean_content = strip (content entry);
          (entries', texts_to_translate) = prepare_texts history_map rest
      in case (if history_map \<noteq> [] then map_of history_map clean_content else None) of
           Some translation \<Rightarrow>
             (entry\<lparr>translated_content := translation\<rparr> # entries', texts_to_translate)
         | None \<Rightarrow> (entry # entries', content entry # texts_to_translate))"

text \<open>
  The loop that writes the translated texts back: entry by entry, an entry whose
  \<^verbatim>\<open>translated_content\<close> is empty takes \<^verbatim>\<open>translated_texts[j]\<close>, which raises
  \<^verbatim>\<open>IndexError\<close> when \<open>j\<close> is out of range.
\<close>

fun update_results :: "SubtitleEntry list \<Rightarrow> string list \<Rightarrow> nat \<Rightarrow> exn + SubtitleEntry list" where
  "update_results [] translated_texts j = Inr []"
| "update_results (entry # rest) translated_texts j =
     (if translated_content entry = [] then
        (if j < length translated_texts then
           (case update_results rest translated_texts (j + 1) of
              Inl e \<Rightarrow> Inl e
            | Inr entries' \<Rightarrow>
                Inr (entry\<lparr>translated_content := translated_texts ! j\<rparr> # entries'))
         else Inl IndexError)
      else
        (case update_results rest translated_texts j of
           Inl e \<Rightarrow> Inl e
         | Inr entries' \<Rightarrow> Inr (entry # entries')))"

text \<open>
  What a call of \<^verbatim>\<open>translate_entries\<close> leaves behind: the entries, the list stored in
  \<^verbatim>\<open>self.translations[target_language]\<close>, and the batch handed to the translator
  (\<open>None\<close> when the translator was not called).
\<close>

record outcome =
  entries_after :: "SubtitleEntry list"
  stored :: "string list"
  dispatched :: "string list option"

text \<open>
  \<^verbatim>\<open>translate_entries\<close> from the point where \<^verbatim>\<open>history_map\<close> is built. The
  translator is a parameter: the list \<^verbatim>\<open>translate_batch\<close> returns for a batch, a
  target language and a concurrency ceiling, or the exception it raises.
\<close>

definition translate_entries_with ::
  "history_map \<Rightarrow> (string list \<Rightarrow> string \<Rightarrow> int \<Rightarrow> exn + string list) \<Rightarrow> SubtitleEntry list
     \<Rightarrow> string \<Rightarrow> int \<Rightarrow> exn + outcome" where
  "translate_entries_with history_map translator entries target_language max_concurrency =
     (let (entries1, texts_to_translate) = prepare_texts history_map entries in
      if texts_to_translate \<noteq> [] then
        (case translator texts_to_translate target_language max_concurrency of
           Inl e \<Rightarrow> Inl e
         | Inr translated_texts \<Rightarrow>
             (case update_results entries1 translated_texts 0 of
                Inl e \<Rightarrow> Inl e
              | Inr entries2 \<Rightarrow>
                  Inr \<lparr>entries_after = entries2,
                       stored = map translated_content entries2,
                       dispatched = Some texts_to_translate\<rparr>))
      else
        Inr \<lparr>entries_after = entries1,
             stored = map translated_content entries1,
             dispatched = None\<rparr>)"

definition translate_entries ::
  "('k::linorder) pylib \<Rightarrow> files \<Rightarrow> (string list \<Rightarrow> string \<Rightarrow> int \<Rightarrow> exn + string list)
     \<Rightarrow> SubtitleEntry list \<Rightarrow> string \<Rightarrow> int \<Rightarrow> bool \<Rightarrow> string option \<Rightarrow> exn + outcome" where
  "translate_entries lib fs translator entries target_language max_concurrency
       use_history history_file =
     translate_entries_with (load_history lib fs use_history history_file) translator entries
       target_language max_concurrency"

text \<open>
  A translator for concrete runs, one result per text: ``Hello'' becomes ``Bonjour'',
  ``World'' becomes ``Monde'', and any other text is returned as it is.
\<close>

definition mock_translator :: "string list \<Rightarrow> string \<Rightarrow> int \<Rightarrow> exn + string list" where
  "mock_translator texts target_language max_concurrency =
     Inr (map (\<lambda>t. if t = ''Hello'' then ''Bonjour''
                    else if t = ''World'' then ''Monde'' else t) texts)"

section \<open>The translation client: retry, backoff and fallback\<close>

lemma loop_unfold_fail:
  assumes "attempt_result (post rc) = Inl e" "rc \<le> mr"
  shows "translate_text_loop post t0 mr d rc sl =
     (if rc + 1 \<le> mr then translate_text_loop post t0 mr d (rc + 1) (sl @ [d * of_int (rc + 1)])
      else (Inr (Some t0), sl))"
  using assms by (cases e; simp add: translate_text_loop.simps[of post t0 mr d rc sl])

lemma loop_unfold_ok:
  assumes "attempt_result (post rc) = Inr t" "rc \<le> mr"
  shows "translate_text_loop post t0 mr d rc sl = (Inr (Some t), sl)"
  using assms by (simp add: translate_text_loop.simps[of post t0 mr d rc sl])

lemma loop_returns_str:
  "rc \<le> mr \<Longrightarrow> \<exists>s. fst (translate_text_loop post t0 mr d rc sl) = Inr (Some s)"
proof (induction "nat (mr - rc)" arbitrary: rc sl)
  case 0
  then have "\<not> rc + 1 \<le> mr" by simp
  with 0 show ?case
    by (cases "attempt_result (post rc)") (simp_all add: loop_unfold_fail loop_unfold_ok)
next
  case (Suc n)
  show ?case
  proof (cases "attempt_result (post rc)")
    case (Inr t)
    with Suc.prems show ?thesis by (simp add: loop_unfold_ok)
  next
    case (Inl e)
    have le: "rc + 1 \<le> mr" using Suc.hyps(2) by linarith
    have "n = nat (mr - (rc + 1))" using Suc.hyps(2) by linarith
    from Suc.hyps(1)[OF this le] Inl Suc.prems le show ?thesis
      by (simp add: loop_unfold_fail)
  qed
qed

lemma loop_all_fail:
  "rc \<le> mr \<Longrightarrow> \<forall>k. rc \<le> k \<and> k \<le> mr \<longrightarrow> (\<exists>e. attempt_result (post k) = Inl e)
   \<Longrightarrow> translate_text_loop post t0 mr d rc sl =
       (Inr (Some t0), sl @ map (\<lambda>j. d * of_int j) [rc + 1..mr])"
proof (induction "nat (mr - rc)" arbitrary: rc sl)
  case 0
  then have eq: "rc = mr" by simp
  from 0(3) eq obtain e where "attempt_result (post rc) = Inl e" by auto
  with eq show ?case by (simp add: loop_unfold_fail)
next
  case (Suc n)
  from Suc.prems obtain e where e: "attempt_result (post rc) = Inl e" by auto
  have le: "rc + 1 \<le> mr" using Suc.hyps(2) by linarith
  have n: "n = nat (mr - (rc + 1))" using Suc.hyps(2) by linarith
  have all: "\<forall>k. rc + 1 \<le> k \<and> k \<le> mr \<longrightarrow> (\<exists>e. attempt_result (post k) = Inl e)"
    using Suc.prems(2) by auto
  have up: "[rc + 1..mr] = (rc + 1) # [rc + 1 + 1..mr]"
    using le by (simp add: upto_rec1)
  show ?case
    using Suc.hyps(1)[OF n le all] e Suc.prems(1) le
    by (simp add: loop_unfold_fail up)
qed

lemma loop_sleeps_prefix:
  "rc + int n \<le> mr \<Longrightarrow> \<forall>k. rc \<le> k \<and> k < rc + int n \<longrightarrow> (\<exists>e. attempt_result (post k) = Inl e)
   \<Longrightarrow> \<exists>rest. snd (translate_text_loop post t0 mr d rc sl) =
       sl @ map (\<lambda>j. d * of_int j) [rc + 1..rc + int n] @ rest"
proof (induction n arbitrary: rc sl)
  case 0
  have "\<exists>rest. snd (translate_text_loop post t0 mr d rc sl) = sl @ rest"
  proof (induction "nat (mr - rc)" arbitrary: rc sl)
    case 0
    then show ?case
      by (cases "attempt_result (post rc)"; cases "rc \<le> mr")
         (simp_all add: loop_unfold_fail loop_unfold_ok translate_text_loop.simps[of post t0 mr d rc sl])
  next
    case (Suc m)
    have le: "rc + 1 \<le> mr" using Suc.hyps(2) by linarith
    have m: "m = nat (mr - (rc + 1))" using Suc.hyps(2) by linarith
    from Suc.hyps(1)[OF m, of "sl @ [d * of_int (rc + 1)]"] le show ?case
      by (cases "attempt_result (post rc)") (auto simp add: loop_unfold_fail loop_unfold_ok)
  qed
  then show ?case by simp
next
  case (Suc n)
  from Suc.prems obtain e where e: "attempt_result (post rc) = Inl e" by auto
  have le: "rc + 1 \<le> mr" "rc \<le> mr" using Suc.prems(1) by linarith+
  have le': "rc + 1 + int n \<le> mr" using Suc.prems(1) by simp
  have all: "\<forall>k. rc + 1 \<le> k \<and> k < rc + 1 + int n \<longrightarrow> (\<exists>e. attempt_result (post k) = Inl e)"
    using Suc.prems(2) by auto
  have up: "[rc + 1..rc + int (Suc n)] = (rc + 1) # [rc + 1 + 1..rc + 1 + int n]"
    by (simp add: upto_rec1 add.commute add.left_commute)
  from Suc.IH[OF le' all, of "sl @ [d * of_int (rc + 1)]"] obtain rest where
    rest: "snd (translate_text_loop post t0 mr d (rc + 1) (sl @ [d * of_int (rc + 1)])) =
       (sl @ [d * of_int (rc + 1)]) @ map (\<lambda>j. d * of_int j) [rc + 1 + 1..rc + 1 + int n] @ rest"
    by blast
  have "translate_text_loop post t0 mr d rc sl =
      translate_text_loop post t0 mr d (rc + 1) (sl @ [d * of_int (rc + 1)])"
    using e le by (simp add: loop_unfold_fail)
  then have "snd (translate_text_loop post t0 mr d rc sl) =
      sl @ map (\<lambda>j. d * of_int j) [rc + 1..rc + int (Suc n)] @ rest"
    unfolding up using rest by simp
  then show ?case by blast
qed


text \<open>
  C3. For every input text and every \<open>max_retries \<ge> 0\<close>, \<^verbatim>\<open>translate_text\<close> raises
  nothing outward: it returns a string, and when each of the \<open>max_retries + 1\<close> attempts
  fails it returns the input text itself, untrimmed and unmodified.
\<close>

theorem translate_text_never_raises:
  "0 \<le> max_retries \<Longrightarrow>
   (\<exists>s. fst (translate_text post t0 max_retries retry_delay) = Inr (Some s)) \<and>
   ((\<forall>k. 0 \<le> k \<and> k \<le> max_retries \<longrightarrow> (\<exists>e. attempt_result (post k) = Inl e)) \<longrightarrow>
      fst (translate_text post t0 max_retries retry_delay) = Inr (Some t0))"
  unfolding translate_text_def
  using loop_returns_str[of 0 max_retries post t0 retry_delay "[]"]
    loop_all_fail[of 0 max_retries post t0 retry_delay "[]"]
  by simp

theorem translate_text_never_raises_witness:
  "(0::int) \<le> 1 \<and>
   (\<exists>s. fst (translate_text (\<lambda>_. TimedOut) '' hi '' 1 2) = Inr (Some s)) \<and>
   fst (translate_text (\<lambda>_. TimedOut) '' hi '' 1 2) = Inr (Some '' hi '')"
  using translate_text_never_raises[of 1 "\<lambda>_. TimedOut" "'' hi ''" 2]
  by simp

text \<open>
  C6. When the first \<open>r\<close> attempts of a unit fail and attempts remain
  (\<open>1 \<le> r \<le> max_retries\<close>), the delays slept before the retries \<open>1, \<dots>, r\<close> are
  \<open>retry_delay * 1, \<dots>, retry_delay * r\<close>; in particular the delay before retry \<open>r\<close> is
  \<open>retry_delay * r\<close>.
\<close>

theorem backoff_delay_linear:
  assumes "1 \<le> r" and "r \<le> max_retries"
    and "\<forall>k. 0 \<le> k \<and> k < r \<longrightarrow> (\<exists>e. attempt_result (post k) = Inl e)"
  shows "take (nat r) (snd (translate_text post t0 max_retries retry_delay)) =
           map (\<lambda>j. retry_delay * of_int j) [1..r] \<and>
         snd (translate_text post t0 max_retries retry_delay) ! (nat r - 1) =
           retry_delay * of_int r"
proof -
  have r: "int (nat r) = r" using assms(1) by simp
  from loop_sleeps_prefix[of 0 "nat r" max_retries post t0 retry_delay "[]"] assms r
  obtain rest where rest: "snd (translate_text post t0 max_retries retry_delay) =
      map (\<lambda>j. retry_delay * of_int j) [1..r] @ rest"
    by (auto simp: translate_text_def)
  have len: "length [1..r] = nat r" by simp
  have nth: "[1..r] ! (nat r - 1) = r" using assms(1) by (simp add: nth_upto)
  have lt: "nat r - 1 < length (map (\<lambda>j. retry_delay * of_int j) [1..r])"
    using assms(1) by simp
  show ?thesis
    unfolding rest using len nth lt by (simp add: nth_append del: length_upto)
qed

theorem backoff_delay_linear_witness:
  "(1::int) \<le> 2 \<and> (2::int) \<le> 3 \<and>
   snd (translate_text (\<lambda>k. if k < 2 then TimedOut else Reply False (Some ''ok'')) ''a'' 3 2) ! 1 = 4"
  using backoff_delay_linear[of 2 3 "\<lambda>k. if k < 2 then TimedOut else Reply False (Some ''ok'')" "''a''" 2]
  by simp

section \<open>The bounded dispatcher: runs of the event loop\<close>

lemma filter_length_update:
  "i < length xs \<Longrightarrow>
   length (filter P (xs[i := y])) + (if P (xs ! i) then 1 else 0) =
   length (filter P xs) + (if P y then 1 else 0)"
proof (induction xs arbitrary: i)
  case Nil
  then show ?case by simp
next
  case (Cons x xs)
  then show ?case by (cases i) auto
qed

lemma inv_initial: "0 \<le> K \<Longrightarrow> batch_inv ev texts lang K (initial texts K)"
  by (simp add: batch_inv_def initial_def in_flight_def)

lemma inv_step:
  assumes "batch_inv ev texts lang K s" "step ev texts lang e s = Some s'"
  shows "batch_inv ev texts lang K s'"
proof (cases e)
  case (Acquire i)
  with assms(2) have i: "i < length (tasks s)" "tasks s ! i = Waiting" "0 < permits s"
    and s': "s' = s\<lparr>tasks := (tasks s)[i := Running], permits := permits s - 1\<rparr>"
    by (auto split: if_splits)
  from filter_length_update[OF i(1), of "\<lambda>t. t = Running" Running] i(2)
  have "in_flight s' = Suc (in_flight s)" by (simp add: in_flight_def s')
  with assms(1) i show ?thesis
    by (auto simp: batch_inv_def s' nth_list_update)
next
  case (Release i)
  with assms(2) have i: "i < length (tasks s)" "tasks s ! i = Running"
    and s': "s' = s\<lparr>tasks := (tasks s)[i := Done (translate_with_semaphore ev lang (texts ! i) i)],
                   permits := permits s + 1\<rparr>"
    by (auto split: if_splits)
  from filter_length_update[OF i(1), of "\<lambda>t. t = Running" "Done (translate_with_semaphore ev lang (texts ! i) i)"] i(2)
  have "Suc (in_flight s') = in_flight s" by (simp add: in_flight_def s')
  with assms(1) i show ?thesis
    by (auto simp: batch_inv_def s' nth_list_update)
qed

lemma inv_run:
  "batch_inv ev texts lang K s \<Longrightarrow> run ev texts lang sched s = Some s' \<Longrightarrow> batch_inv ev texts lang K s'"
proof (induction sched arbitrary: s)
  case Nil
  then show ?case by simp
next
  case (Cons e es)
  then show ?case by (auto split: option.splits dest: inv_step)
qed

lemma those_map_Some:
  "those (map f xs) = Some ys \<Longrightarrow> length ys = length xs \<and> (\<forall>i < length xs. f (xs ! i) = Some (ys ! i))"
proof (induction xs arbitrary: ys)
  case Nil
  then show ?case by simp
next
  case (Cons x xs)
  then show ?case by (auto split: option.splits simp: nth_Cons split: nat.splits)
qed

lemma done_result_Some: "done_result t = Some r \<longleftrightarrow> t = Done r"
  by (cases t) auto

lemma gather_results:
  assumes "0 \<le> K" "gather ev texts lang sched (initial texts K) = Some results"
  shows "results = map (\<lambda>i. translate_with_semaphore ev lang (texts ! i) i) [0..<length texts]"
proof -
  from assms(2) obtain s where s: "run ev texts lang sched (initial texts K) = Some s"
    and th: "those (map done_result (tasks s)) = Some results"
    by (auto simp: gather_def split: option.splits)
  have inv: "batch_inv ev texts lang K s" using inv_run[OF inv_initial[OF assms(1)] s] .
  from those_map_Some[OF th] have len: "length results = length (tasks s)"
    and el: "\<forall>i < length (tasks s). tasks s ! i = Done (results ! i)"
    by (auto simp: done_result_Some)
  show ?thesis
    using inv len el by (intro nth_equalityI) (auto simp: batch_inv_def)
qed

lemma process_results_enum:
  "process_results texts (enumerate n (map (\<lambda>i. translate_with_semaphore ev lang (texts ! i) i) [n..<length texts])) acc
   = Inr (acc @ map (\<lambda>i. (i, unit_outcome ev texts lang i)) [n..<length texts])"
proof (induction "length texts - n" arbitrary: n acc)
  case 0
  then show ?case by simp
next
  case (Suc m)
  then have lt: "n < length texts" and m: "m = length texts - Suc n" by simp_all
  have up: "[n..<length texts] = n # [Suc n..<length texts]" using lt by (simp add: upt_rec)
  show ?case
  proof (cases "translate_with_semaphore ev lang (texts ! n) n")
    case (Inl e)
    with Suc.hyps(1)[OF m] lt show ?thesis
      by (simp add: up unit_outcome_def)
  next
    case (Inr p)
    then have "p = (n, unit_outcome ev texts lang n)"
      by (auto simp: translate_with_semaphore_def unit_outcome_def split: option.splits sum.splits)
    with Suc.hyps(1)[OF m] lt Inr show ?thesis
      by (simp add: up)
  qed
qed

lemma sort_key_fst_enum:
  "sort_key fst (map (\<lambda>i. (i, f i)) [0..<n]) = map (\<lambda>i. (i, f i)) [0..<n]"
  by (rule sort_key_id_if_sorted) (simp add: comp_def)

lemma translate_batch_complete:
  assumes "0 \<le> K" "translate_batch ev texts lang K sched = Some r"
  shows "r = Inr (map (unit_outcome ev texts lang) [0..<length texts])"
proof -
  from assms obtain results where g: "gather ev texts lang sched (initial texts K) = Some results"
    by (auto simp: translate_batch_def semaphore_init_def split: option.splits)
  note res = gather_results[OF assms(1) g]
  have "process_results texts (enumerate 0 results) [] =
      Inr (map (\<lambda>i. (i, unit_outcome ev texts lang i)) [0..<length texts])"
    unfolding res using process_results_enum[of texts 0 ev lang "[]"] by simp
  with assms g show ?thesis
    by (simp add: translate_batch_def semaphore_init_def sort_key_fst_enum comp_def)
qed

lemma run_append:
  "run ev texts lang (a @ b) s =
     (case run ev texts lang a s of None \<Rightarrow> None | Some s' \<Rightarrow> run ev texts lang b s')"
  by (induction a arbitrary: s) (auto split: option.splits)

lemma remaining_step:
  assumes "step ev texts lang e s = Some s'"
  shows "Suc (remaining s') = remaining s"
proof (cases e)
  case (Acquire i)
  with assms have i: "i < length (tasks s)" "tasks s ! i = Waiting"
    and s': "tasks s' = (tasks s)[i := Running]"
    by (auto split: if_splits)
  from filter_length_update[OF i(1), of "\<lambda>t. t = Running" Running]
    filter_length_update[OF i(1), of "\<lambda>t. t = Waiting" Running] i(2)
  show ?thesis by (simp add: remaining_def in_flight_def s')
next
  case (Release i)
  with assms have i: "i < length (tasks s)" "tasks s ! i = Running"
    and s': "tasks s' = (tasks s)[i := Done (translate_with_semaphore ev lang (texts ! i) i)]"
    by (auto split: if_splits)
  from filter_length_update[OF i(1), of "\<lambda>t. t = Running" "Done (translate_with_semaphore ev lang (texts ! i) i)"]
    filter_length_update[OF i(1), of "\<lambda>t. t = Waiting" "Done (translate_with_semaphore ev lang (texts ! i) i)"] i(2)
  show ?thesis by (simp add: remaining_def in_flight_def s')
qed

lemma remaining_run:
  "run ev texts lang sched s = Some s' \<Longrightarrow> length sched + remaining s' = remaining s"
proof (induction sched arbitrary: s)
  case Nil
  then show ?case by simp
next
  case (Cons e es)
  then obtain s1 where s1: "step ev texts lang e s = Some s1" "run ev texts lang es s1 = Some s'"
    by (auto split: option.splits)
  from Cons.IH[OF s1(2)] remaining_step[OF s1(1)] show ?case by simp
qed

lemma remaining_initial: "remaining (initial texts K) = 2 * length texts"
  by (simp add: remaining_def initial_def in_flight_def)

lemma those_all_done:
  "\<forall>t \<in> set xs. t \<noteq> Waiting \<and> t \<noteq> Running \<Longrightarrow> \<exists>rs. those (map done_result xs) = Some rs"
proof (induction xs)
  case Nil
  then show ?case by simp
next
  case (Cons t ts)
  then show ?case by (cases t) auto
qed

lemma filter_empty_length: "length (filter P xs) = 0 \<longleftrightarrow> (\<forall>x \<in> set xs. \<not> P x)"
  by (simp add: filter_empty_conv)

lemma progress:
  assumes inv: "batch_inv ev texts lang K s" and K: "1 \<le> K"
    and nd: "those (map done_result (tasks s)) = None"
  shows "\<exists>e s'. step ev texts lang e s = Some s'"
proof (cases "\<exists>i < length (tasks s). tasks s ! i = Running")
  case True
  then obtain i where "i < length (tasks s)" "tasks s ! i = Running" by blast
  then have "step ev texts lang (Release i) s \<noteq> None" by simp
  then show ?thesis by blast
next
  case False
  then have nr: "\<forall>t \<in> set (tasks s). t \<noteq> Running" by (auto simp: in_set_conv_nth)
  then have "in_flight s = 0" by (simp add: in_flight_def filter_empty_conv)
  with inv K have p: "0 < permits s" by (simp add: batch_inv_def)
  from nd those_all_done[of "tasks s"] nr obtain t where "t \<in> set (tasks s)" "t = Waiting"
    by fastforce
  then obtain i where "i < length (tasks s)" "tasks s ! i = Waiting"
    by (auto simp: in_set_conv_nth)
  with p have "step ev texts lang (Acquire i) s \<noteq> None" by simp
  then show ?thesis by blast
qed

lemma can_finish:
  assumes K: "1 \<le> K"
  shows "batch_inv ev texts lang K s \<Longrightarrow>
    \<exists>sched s' rs. run ev texts lang sched s = Some s' \<and> those (map done_result (tasks s')) = Some rs"
proof (induction "remaining s" arbitrary: s rule: less_induct)
  case less
  show ?case
  proof (cases "those (map done_result (tasks s))")
    case (Some rs)
    then have "run ev texts lang [] s = Some s \<and> those (map done_result (tasks s)) = Some rs"
      by simp
    then show ?thesis by blast
  next
    case None
    from progress[OF less.prems K None] obtain e s1 where st: "step ev texts lang e s = Some s1"
      by blast
    from remaining_step[OF st] have lt: "remaining s1 < remaining s" by simp
    from less.hyps[OF lt inv_step[OF less.prems st]] obtain sched s' rs where
      r: "run ev texts lang sched s1 = Some s'" "those (map done_result (tasks s')) = Some rs"
      by blast
    with st have "run ev texts lang (e # sched) s = Some s' \<and> those (map done_result (tasks s')) = Some rs"
      by simp
    then show ?thesis by blast
  qed
qed

lemma can_complete:
  assumes K: "1 \<le> K" and r: "run ev texts lang sched (initial texts K) = Some s"
  shows "\<exists>sched'. translate_batch ev texts lang K (sched @ sched') =
           Some (Inr (map (unit_outcome ev texts lang) [0..<length texts]))"
proof -
  have K0: "0 \<le> K" using K by simp
  have inv: "batch_inv ev texts lang K s" using inv_run[OF inv_initial[OF K0] r] .
  from can_finish[OF K inv] obtain sched' s' rs where
    f: "run ev texts lang sched' s = Some s'" "those (map done_result (tasks s')) = Some rs"
    by blast
  have g: "gather ev texts lang (sched @ sched') (initial texts K) = Some rs"
    using r f by (simp add: gather_def run_append)
  have "translate_batch ev texts lang K (sched @ sched') \<noteq> None"
    using g K0 by (auto simp: translate_batch_def semaphore_init_def split: sum.splits)
  then obtain res where res: "translate_batch ev texts lang K (sched @ sched') = Some res" by blast
  from translate_batch_complete[OF K0 res] res show ?thesis by blast
qed

lemma processed_keys:
  assumes "0 \<le> K" "gather ev texts lang sched (initial texts K) = Some results"
  shows "\<exists>ps. process_results texts (enumerate 0 results) [] = Inr ps \<and> map fst ps = [0..<length texts]"
proof -
  note res = gather_results[OF assms]
  have "process_results texts (enumerate 0 results) [] =
      Inr (map (\<lambda>i. (i, unit_outcome ev texts lang i)) [0..<length texts])"
    unfolding res using process_results_enum[of texts 0 ev lang "[]"] by simp
  moreover have "map fst (map (\<lambda>i. (i, unit_outcome ev texts lang i)) [0..<length texts]) = [0..<length texts]"
    by (simp add: comp_def)
  ultimately show ?thesis by blast
qed


section \<open>The bounded dispatcher: order, ceiling and fault containment\<close>

text \<open>
  Ceilings below one: a negative value makes the semaphore's constructor raise, so the call
  raises \<^verbatim>\<open>ValueError\<close> before any task exists; with the value 0 no task can
  ever enter, so no schedule completes a non-empty batch and the call does not return.
\<close>

lemma translate_batch_negative_ceiling:
  "max_concurrency < 0 \<Longrightarrow>
   translate_batch ev texts target_language max_concurrency sched = Some (Inl ValueError)"
  by (simp add: translate_batch_def semaphore_init_def)

lemma step_initial_zero: "step ev texts target_language e (initial texts 0) = None"
  by (cases e) (auto simp: initial_def)

lemma translate_batch_zero_ceiling:
  assumes "texts \<noteq> []"
  shows "translate_batch ev texts target_language 0 sched = None"
proof (cases sched)
  case Nil
  from assms obtain t ts where "texts = t # ts" by (cases texts) auto
  then have "those (map done_result (tasks (initial texts 0))) = None"
    by (simp add: initial_def)
  with Nil show ?thesis
    by (simp add: translate_batch_def semaphore_init_def gather_def)
next
  case (Cons e es)
  then show ?thesis
    by (simp add: translate_batch_def semaphore_init_def gather_def step_initial_zero)
qed

text \<open>
  C1. With a concurrency ceiling of at least one, every complete execution of
  \<^verbatim>\<open>translate_batch\<close> over \<open>N\<close> texts returns a list of \<open>N\<close> results, the
  \<open>i\<close>-th being the outcome of the \<open>i\<close>-th text whatever the order in which the tasks
  completed; the position keys collected before sorting are \<open>0, \<dots>, N - 1\<close>, each once;
  and every run of the event loop has at most \<open>2 * N\<close> events and extends to a complete
  execution, so the call returns.
\<close>

theorem translate_batch_preserves_order:
  assumes "1 \<le> max_concurrency"
  shows
    "(\<forall>sched r. translate_batch ev texts target_language max_concurrency sched = Some r \<longrightarrow>
        r = Inr (map (unit_outcome ev texts target_language) [0..<length texts])) \<and>
     length (map (unit_outcome ev texts target_language) [0..<length texts]) = length texts \<and>
     (\<forall>sched results.
        gather ev texts target_language sched (initial texts max_concurrency) = Some results \<longrightarrow>
        (\<exists>ps. process_results texts (enumerate 0 results) [] = Inr ps \<and>
              map fst ps = [0..<length texts])) \<and>
     (\<forall>sched s. run ev texts target_language sched (initial texts max_concurrency) = Some s \<longrightarrow>
        length sched \<le> 2 * length texts \<and>
        (\<exists>sched'. translate_batch ev texts target_language max_concurrency (sched @ sched') =
           Some (Inr (map (unit_outcome ev texts target_language) [0..<length texts]))))"
proof -
  have K0: "0 \<le> max_concurrency" using assms by simp
  have a: "\<forall>sched r. translate_batch ev texts target_language max_concurrency sched = Some r \<longrightarrow>
        r = Inr (map (unit_outcome ev texts target_language) [0..<length texts])"
    using translate_batch_complete[OF K0] by blast
  have b: "\<forall>sched results.
        gather ev texts target_language sched (initial texts max_concurrency) = Some results \<longrightarrow>
        (\<exists>ps. process_results texts (enumerate 0 results) [] = Inr ps \<and>
              map fst ps = [0..<length texts])"
    using processed_keys[OF K0] by blast
  have c: "\<forall>sched s. run ev texts target_language sched (initial texts max_concurrency) = Some s \<longrightarrow>
        length sched \<le> 2 * length texts \<and>
        (\<exists>sched'. translate_batch ev texts target_language max_concurrency (sched @ sched') =
           Some (Inr (map (unit_outcome ev texts target_language) [0..<length texts])))"
  proof (intro allI impI conjI)
    fix sched s
    assume r: "run ev texts target_language sched (initial texts max_concurrency) = Some s"
    from remaining_run[OF r] show "length sched \<le> 2 * length texts"
      by (simp add: remaining_initial)
    from can_complete[OF assms r]
    show "\<exists>sched'. translate_batch ev texts target_language max_concurrency (sched @ sched') =
           Some (Inr (map (unit_outcome ev texts target_language) [0..<length texts]))" .
  qed
  from a b c show ?thesis by simp
qed

theorem translate_batch_preserves_order_witness:
  "(1::int) \<le> 2 \<and>
   translate_batch mock_env [''Hello'', ''World''] ''French'' 2
     [Acquire 0, Acquire 1, Release 1, Release 0] = Some (Inr [Some ''Bonjour'', Some ''Monde'']) \<and>
   map (unit_outcome mock_env [''Hello'', ''World''] ''French'') [0..<length [''Hello'', ''World'']] =
     [Some ''Bonjour'', Some ''Monde'']"
proof -
  have e: "translate_batch mock_env [''Hello'', ''World''] ''French'' 2
     [Acquire 0, Acquire 1, Release 1, Release 0] = Some (Inr [Some ''Bonjour'', Some ''Monde''])"
    by code_simp
  have "(1::int) \<le> 2" by simp
  from translate_batch_preserves_order[OF this, of mock_env "[''Hello'', ''World'']" "''French''"] e
  have "Inr [Some ''Bonjour'', Some ''Monde''] =
      (Inr (map (unit_outcome mock_env [''Hello'', ''World''] ''French'') [0..<length [''Hello'', ''World'']])
        :: exn + string option list)"
    by blast
  then have "map (unit_outcome mock_env [''Hello'', ''World''] ''French'') [0..<length [''Hello'', ''World'']] =
     [Some ''Bonjour'', Some ''Monde'']"
    by (simp only: sum.inject)
  with e show ?thesis by simp
qed

text \<open>
  C2. In every state of every run of a batch whose semaphore was created with value \<open>K\<close>,
  the number of units inside the semaphore, that is of translation requests in flight, is
  at most \<open>K\<close>; a further unit enters only after a permit is free.
\<close>

theorem in_flight_bounded:
  assumes "semaphore_init max_concurrency = Inr v"
    and "run ev texts target_language sched (initial texts v) = Some s"
  shows "int (in_flight s) \<le> max_concurrency \<and>
         (\<forall>i. int (in_flight s) = max_concurrency \<longrightarrow>
              step ev texts target_language (Acquire i) s = None)"
proof -
  from assms(1) have v: "v = max_concurrency" "0 \<le> max_concurrency"
    by (auto simp: semaphore_init_def split: if_splits)
  from inv_run[OF inv_initial[OF v(2)] assms(2)[unfolded v(1)]]
  have inv: "batch_inv ev texts target_language max_concurrency s" .
  then have "int (in_flight s) + permits s = max_concurrency" "0 \<le> permits s"
    by (simp_all add: batch_inv_def)
  then show ?thesis by auto
qed

theorem in_flight_bounded_witness:
  "semaphore_init 2 = Inr 2 \<and>
   (\<exists>s. run mock_env [''a'', ''b'', ''c''] ''French'' [Acquire 2, Acquire 0] (initial [''a'', ''b'', ''c''] 2) = Some s \<and>
        int (in_flight s) = 2 \<and>
        step mock_env [''a'', ''b'', ''c''] ''French'' (Acquire 1) s = None)"
proof -
  have i: "semaphore_init 2 = Inr 2" by (simp add: semaphore_init_def)
  have r: "run mock_env [''a'', ''b'', ''c''] ''French'' [Acquire 2, Acquire 0] (initial [''a'', ''b'', ''c''] 2)
      = Some \<lparr>tasks = [Running, Waiting, Running], permits = 0\<rparr>"
    by (simp add: initial_def)
  have f: "int (in_flight \<lparr>tasks = [Running, Waiting, Running], permits = 0\<rparr>) = 2"
    by (simp add: in_flight_def)
  from in_flight_bounded[OF i r] f
  have "step mock_env [''a'', ''b'', ''c''] ''French'' (Acquire 1) \<lparr>tasks = [Running, Waiting, Running], permits = 0\<rparr> = None"
    by blast
  with i r f show ?thesis by blast
qed

lemma unit_outcome_fault:
  "unit_outcome (ev\<lparr>fault := (fault ev)(i \<mapsto> e)\<rparr>) texts lang i = Some (texts ! i)"
  by (simp add: unit_outcome_def translate_with_semaphore_def)

lemma unit_outcome_other:
  "j \<noteq> i \<Longrightarrow> unit_outcome (ev\<lparr>fault := (fault ev)(i := x)\<rparr>) texts lang j = unit_outcome ev texts lang j"
  by (simp add: unit_outcome_def translate_with_semaphore_def split: option.splits)

lemma run_empty: "run ev texts lang [] (initial texts K) = Some (initial texts K)"
  by simp

text \<open>
  C7. When the work of unit \<open>i\<close> raises an exception that escapes the translation client's
  own handling, every complete execution of \<^verbatim>\<open>translate_batch\<close> still returns a list
  (nothing propagates), position \<open>i\<close> holds that unit's input text, and every other
  position holds what it holds in an execution without the fault; such executions exist.
\<close>

theorem unit_fault_contained:
  assumes "1 \<le> max_concurrency" and "i < length texts" and "fault ev i = None"
  shows
    "(\<exists>sched out. translate_batch (ev\<lparr>fault := (fault ev)(i \<mapsto> e)\<rparr>) texts target_language
         max_concurrency sched = Some (Inr out)) \<and>
     (\<exists>sched0 out0. translate_batch ev texts target_language max_concurrency sched0 = Some (Inr out0)) \<and>
     (\<forall>sched r. translate_batch (ev\<lparr>fault := (fault ev)(i \<mapsto> e)\<rparr>) texts target_language
         max_concurrency sched = Some r \<longrightarrow>
        (\<exists>out. r = Inr out \<and> length out = length texts \<and> out ! i = Some (texts ! i) \<and>
           (\<forall>sched0 out0.
              translate_batch ev texts target_language max_concurrency sched0 = Some (Inr out0) \<longrightarrow>
              (\<forall>j < length texts. j \<noteq> i \<longrightarrow> out ! j = out0 ! j))))"
proof -
  let ?f = "ev\<lparr>fault := (fault ev)(i \<mapsto> e)\<rparr>"
  have K0: "0 \<le> max_concurrency" using assms(1) by simp
  have ex1: "\<exists>sched out. translate_batch ?f texts target_language max_concurrency sched = Some (Inr out)"
    using can_complete[OF assms(1) run_empty, of ?f texts target_language] by blast
  have ex2: "\<exists>sched0 out0. translate_batch ev texts target_language max_concurrency sched0 = Some (Inr out0)"
    using can_complete[OF assms(1) run_empty, of ev texts target_language] by blast
  have main: "\<exists>out. r = Inr out \<and> length out = length texts \<and> out ! i = Some (texts ! i) \<and>
           (\<forall>sched0 out0.
              translate_batch ev texts target_language max_concurrency sched0 = Some (Inr out0) \<longrightarrow>
              (\<forall>j < length texts. j \<noteq> i \<longrightarrow> out ! j = out0 ! j))"
    if r: "translate_batch ?f texts target_language max_concurrency sched = Some r" for sched r
  proof -
    let ?out = "map (unit_outcome ?f texts target_language) [0..<length texts]"
    have req: "r = Inr ?out" using translate_batch_complete[OF K0 r] .
    have at_i: "?out ! i = Some (texts ! i)"
      using assms(2) by (simp add: unit_outcome_fault)
    have others: "\<forall>j < length texts. j \<noteq> i \<longrightarrow> ?out ! j = out0 ! j"
      if r0: "translate_batch ev texts target_language max_concurrency sched0 = Some (Inr out0)"
      for sched0 out0
    proof -
      from translate_batch_complete[OF K0 r0]
      have "out0 = map (unit_outcome ev texts target_language) [0..<length texts]" by simp
      then show ?thesis by (simp add: unit_outcome_other)
    qed
    from req at_i others show ?thesis by simp
  qed
  from ex1 ex2 main show ?thesis by blast
qed

theorem unit_fault_contained_witness:
  "(1::int) \<le> 2 \<and> (0::nat) < length [''Hello'', ''World''] \<and> fault mock_env 0 = None \<and>
   (\<exists>out. translate_batch (mock_env\<lparr>fault := (fault mock_env)(0 \<mapsto> RuntimeError)\<rparr>)
        [''Hello'', ''World''] ''French'' 2 [Acquire 1, Acquire 0, Release 1, Release 0] = Some (Inr out) \<and>
      out ! 0 = Some ''Hello'' \<and> out ! 1 = Some ''Monde'')"
proof -
  have k: "(1::int) \<le> 2" and i: "(0::nat) < length [''Hello'', ''World'']"
    and f: "fault mock_env 0 = None"
    by (simp_all add: mock_env_def)
  have r: "translate_batch (mock_env\<lparr>fault := (fault mock_env)(0 \<mapsto> RuntimeError)\<rparr>)
        [''Hello'', ''World''] ''French'' 2 [Acquire 1, Acquire 0, Release 1, Release 0] =
      Some (Inr [Some ''Hello'', Some ''Monde''])"
    by (simp add: translate_batch_def semaphore_init_def gather_def initial_def mock_env_def
      translate_with_semaphore_def translate_text_def translate_text_loop.simps
      strip_def lstrip_def rstrip_def is_space_def enumerate_eq_zip)
  from unit_fault_contained[OF k i f, of RuntimeError "''French''"] r
  have "[Some ''Hello'', Some ''Monde''] ! 0 = Some ([''Hello'', ''World''] ! 0)"
    by fastforce
  with k i f r show ?thesis by simp
qed


section \<open>History reuse\<close>

lemma parse_block_untranslated:
  "parse_block lib block = Some (Inr (k, entry)) \<Longrightarrow> translated_content entry = []"
  by (auto simp: parse_block_def Let_def split: if_splits option.splits list.splits sum.splits)

lemma parse_blocks_untranslated:
  "parse_blocks lib blocks parsed = Inr result \<Longrightarrow>
   \<forall>p \<in> set parsed. translated_content (snd p) = [] \<Longrightarrow>
   \<forall>p \<in> set result. translated_content (snd p) = []"
proof (induction blocks arbitrary: parsed)
  case Nil
  then show ?case by simp
next
  case (Cons block blocks)
  show ?case
  proof (cases "parse_block lib block")
    case None
    with Cons show ?thesis by simp
  next
    case (Some r)
    show ?thesis
    proof (cases r)
      case (Inl e)
      with Some Cons.prems show ?thesis by simp
    next
      case (Inr pair)
      obtain k entry where pair: "pair = (k, entry)" by (cases pair)
      from parse_block_untranslated[of lib block k entry] Some Inr pair
      have "translated_content entry = []" by simp
      with Cons.prems(2) pair have "\<forall>p \<in> set (parsed @ [pair]). translated_content (snd p) = []"
        by auto
      from Cons.IH[OF _ this] Cons.prems(1) Some Inr show ?thesis by simp
    qed
  qed
qed

lemma parse_file_untranslated:
  assumes "parse_file lib fs path = Inr entries"
  shows "\<forall>entry \<in> set entries. translated_content entry = []"
proof -
  from assms obtain body parsed where
    p: "parse_blocks lib (py_split (strip body) (newline @ newline)) [] = Inr parsed"
    and e: "entries = map (\<lambda>(i, (start_time_obj, entry)). entry\<lparr>index := int i\<rparr>)
                      (enumerate 1 (sort_key fst parsed))"
    by (auto simp: parse_file_def split: option.splits sum.splits)
  from parse_blocks_untranslated[OF p] have "\<forall>p \<in> set parsed. translated_content (snd p) = []"
    by simp
  then have "\<forall>q \<in> set (enumerate 1 (sort_key fst parsed)). translated_content (snd (snd q)) = []"
    by (auto simp: enumerate_eq_zip dest!: set_zip_rightD)
  then show ?thesis unfolding e by auto
qed

lemma build_history_map_untranslated:
  "\<forall>entry \<in> set entries. translated_content entry = [] \<Longrightarrow> build_history_map entries m = m"
  by (induction entries arbitrary: m) auto

lemma load_history_empty: "load_history lib fs use_history history_file = []"
  by (auto simp: load_history_def build_history_map_untranslated
      dest!: parse_file_untranslated split: option.splits sum.splits)

lemma prepare_texts_no_history: "prepare_texts [] entries = (entries, map content entries)"
  by (induction entries) auto

text \<open>
  C10. Whatever the history file holds and however the library conversions behave, the
  dictionary that \<^verbatim>\<open>translate_entries\<close> builds from it is empty:
  \<^verbatim>\<open>parse_file\<close> leaves \<^verbatim>\<open>translated_content\<close> empty in every entry and the
  loop keeps only entries where it is not. Zero records are reported, and no entry of the
  input is a cache hit: all of them are handed to the translator.
\<close>

theorem history_never_loaded:
  "load_history lib fs use_history history_file = [] \<and>
   length (load_history lib fs use_history history_file) = 0 \<and>
   prepare_texts (load_history lib fs use_history history_file) entries =
     (entries, map content entries)"
  by (simp add: load_history_empty prepare_texts_no_history)

lemma bhm_append:
  "build_history_map (xs @ ys) m = build_history_map ys (build_history_map xs m)"
  by (induction xs arbitrary: m) auto

lemma bhm_other_keys:
  "\<forall>entry \<in> set entries. translated_content entry \<noteq> [] \<longrightarrow> strip (content entry) \<noteq> k \<Longrightarrow>
   map_of (build_history_map entries m) k = map_of m k"
  by (induction entries arbitrary: m) (auto simp: update_conv')

lemma bhm_distinct:
  "distinct (map fst m) \<Longrightarrow> distinct (map fst (build_history_map entries m))"
  by (induction entries arbitrary: m) (auto simp: distinct_update)

text \<open>
  The loop that fills the dictionary, on any list of history entries: among the entries
  that carry a translation, the last one with a given trimmed source text determines what
  the key is bound to, and each key is bound once. (\<^verbatim>\<open>parse_file\<close> supplies no such
  entry.)
\<close>

lemma build_history_map_last_wins:
  assumes "translated_content entry \<noteq> []"
    and "\<forall>later \<in> set after. translated_content later \<noteq> [] \<longrightarrow>
           strip (content later) \<noteq> strip (content entry)"
  shows "map_of (build_history_map (before @ entry # after) []) (strip (content entry)) =
           Some (strip (translated_content entry)) \<and>
         distinct (map fst (build_history_map (before @ entry # after) []))"
proof -
  have "build_history_map (before @ entry # after) [] =
      build_history_map after
        (AList.update (strip (content entry)) (strip (translated_content entry))
           (build_history_map before []))"
    using assms(1) by (simp add: bhm_append)
  then have "map_of (build_history_map (before @ entry # after) []) (strip (content entry)) =
           Some (strip (translated_content entry))"
    using bhm_other_keys[OF assms(2)] by (simp add: update_conv')
  moreover have "distinct (map fst (build_history_map (before @ entry # after) []))"
    by (rule bhm_distinct) simp
  ultimately show ?thesis by simp
qed

section \<open>Merging history hits and translated texts\<close>

lemma prepare_texts_length: "length (fst (prepare_texts hm entries)) = length entries"
  by (induction entries) (auto split: prod.splits option.splits)

lemma prepare_texts_snd:
  "snd (prepare_texts hm entries) =
     map content (filter (\<lambda>entry. map_of hm (strip (content entry)) = None) entries)"
  by (induction entries) (auto split: prod.splits option.splits)

lemma prepare_texts_fst:
  "fst (prepare_texts hm entries) =
     map (\<lambda>entry. case map_of hm (strip (content entry)) of
                     None \<Rightarrow> entry
                   | Some t \<Rightarrow> entry\<lparr>translated_content := t\<rparr>) entries"
  by (induction entries) (auto split: prod.splits option.splits)

lemma update_results_keep:
  "update_results entries ts j = Inr entries' \<Longrightarrow>
   length entries' = length entries \<and>
   (\<forall>i < length entries. translated_content (entries ! i) \<noteq> [] \<longrightarrow> entries' ! i = entries ! i)"
proof (induction entries arbitrary: j entries')
  case Nil
  then show ?case by simp
next
  case (Cons entry rest)
  show ?case
  proof (cases "translated_content entry = []")
    case True
    with Cons.prems obtain es where es: "update_results rest ts (j + 1) = Inr es"
      and e': "entries' = entry\<lparr>translated_content := ts ! j\<rparr> # es"
      by (auto split: if_splits sum.splits)
    from Cons.IH[OF es] True show ?thesis by (auto simp: e' nth_Cons split: nat.splits)
  next
    case False
    with Cons.prems obtain es where es: "update_results rest ts j = Inr es"
      and e': "entries' = entry # es"
      by (auto split: if_splits sum.splits)
    from Cons.IH[OF es] show ?thesis by (auto simp: e' nth_Cons split: nat.splits)
  qed
qed

lemma update_results_error:
  "j \<le> length ts \<Longrightarrow> update_results entries ts j = Inl e \<longleftrightarrow>
     e = IndexError \<and> length ts < j + length (filter (\<lambda>entry. translated_content entry = []) entries)"
proof (induction entries arbitrary: j)
  case Nil
  then show ?case by simp
next
  case (Cons entry rest)
  show ?case
  proof (cases "translated_content entry = []")
    case True
    show ?thesis
    proof (cases "j < length ts")
      case lt: True
      with True Cons.IH[of "j + 1"] show ?thesis by (auto split: sum.splits)
    next
      case False
      with True Cons.prems show ?thesis by auto
    qed
  next
    case False
    with Cons.IH[of j] Cons.prems show ?thesis by (auto split: sum.splits)
  qed
qed

lemma update_results_ok:
  "j + length (filter (\<lambda>entry. translated_content entry = []) entries) \<le> length ts \<Longrightarrow>
   \<exists>entries'. update_results entries ts j = Inr entries'"
proof (cases "update_results entries ts j")
  case (Inl e)
  assume "j + length (filter (\<lambda>entry. translated_content entry = []) entries) \<le> length ts"
  with Inl update_results_error[of j ts entries e] show ?thesis by simp
next
  case (Inr es)
  then show ?thesis by blast
qed

lemma empties_after_prepare:
  assumes "\<forall>k v. map_of hm k = Some v \<longrightarrow> v \<noteq> []"
  shows "length (filter (\<lambda>entry. translated_content entry = []) (fst (prepare_texts hm entries)))
         \<le> length (snd (prepare_texts hm entries))"
  using assms
  by (induction entries) (auto split: prod.splits option.splits)

lemma py_str_1: "py_str 1 = ''1''"
  by code_simp


text \<open>
  The code after the dictionary is built, for any dictionary: an entry whose trimmed text is
  bound to a non-empty translation is kept out of the batch and ends with that translation.
  (\<^verbatim>\<open>load_history\<close> supplies no binding.)
\<close>

lemma translate_entries_with_reuses_binding:
  assumes "i < length entries"
    and "map_of history_map (strip (content (entries ! i))) = Some translation"
    and "translation \<noteq> []"
  shows
    "content (entries ! i) \<notin> set (snd (prepare_texts history_map entries)) \<and>
     (\<forall>r. translate_entries_with history_map translator entries target_language max_concurrency = Inr r \<longrightarrow>
        translated_content (entries_after r ! i) = translation \<and>
        (\<forall>texts. dispatched r = Some texts \<longrightarrow> content (entries ! i) \<notin> set texts)) \<and>
     ((\<forall>k v. map_of history_map k = Some v \<longrightarrow> v \<noteq> []) \<and>
      (\<exists>translated_texts.
          translator (snd (prepare_texts history_map entries)) target_language max_concurrency =
            Inr translated_texts \<and>
          length (snd (prepare_texts history_map entries)) \<le> length translated_texts) \<longrightarrow>
      (\<exists>r. translate_entries_with history_map translator entries target_language max_concurrency = Inr r))"
proof -
  let ?prep = "prepare_texts history_map entries"
  have notin: "content (entries ! i) \<notin> set (snd ?prep)"
    using assms(2) by (auto simp: prepare_texts_snd)
  have at_i: "fst ?prep ! i = (entries ! i)\<lparr>translated_content := translation\<rparr>"
    using assms(1,2) by (simp add: prepare_texts_fst)
  have len: "length (fst ?prep) = length entries" by (rule prepare_texts_length)
  have final: "translated_content (entries_after r ! i) = translation \<and>
        (\<forall>texts. dispatched r = Some texts \<longrightarrow> content (entries ! i) \<notin> set texts)"
    if r: "translate_entries_with history_map translator entries target_language max_concurrency = Inr r"
    for r
  proof (cases "snd ?prep = []")
    case True
    with r have "entries_after r = fst ?prep" "dispatched r = None"
      by (auto simp: translate_entries_with_def split: prod.splits)
    with at_i show ?thesis by simp
  next
    case False
    with r obtain ts es where
      u: "update_results (fst ?prep) ts 0 = Inr es" and
      rr: "entries_after r = es" "dispatched r = Some (snd ?prep)"
      by (auto simp: translate_entries_with_def split: prod.splits sum.splits)
    from update_results_keep[OF u] len assms(1,3) at_i have "es ! i = fst ?prep ! i" by simp
    with rr at_i notin show ?thesis by simp
  qed
  have completes: "\<exists>r. translate_entries_with history_map translator entries target_language max_concurrency = Inr r"
    if ne: "\<forall>k v. map_of history_map k = Some v \<longrightarrow> v \<noteq> []"
      and tr: "translator (snd ?prep) target_language max_concurrency = Inr ts"
      and le: "length (snd ?prep) \<le> length ts"
    for ts
  proof -
    from empties_after_prepare[OF ne, of entries] le
    have "0 + length (filter (\<lambda>entry. translated_content entry = []) (fst ?prep)) \<le> length ts"
      by simp
    from update_results_ok[OF this] obtain es where "update_results (fst ?prep) ts 0 = Inr es"
      by blast
    with tr show ?thesis
      by (auto simp: translate_entries_with_def split: prod.splits)
  qed
  from notin final completes show ?thesis by blast
qed







text \<open>
  C4. The round trip through the history file, run on a one-entry input with a translator
  that turns ``Hello'' into ``Bonjour'': the first run dispatches ``Hello''; the merged output
  is saved as the history file and holds the translation; the second run, with
  \<^verbatim>\<open>use_history\<close> set and that file, dispatches ``Hello'' again instead of reusing the
  saved translation. This holds however the library conversions behave.
\<close>

theorem history_round_trip_dispatches_again:
  "translate_entries lib fs mock_translator
     [\<lparr>index = 1, start_time = ''00:00:01,000'', end_time = ''00:00:02,000'',
       content = ''Hello'', translated_content = ''''\<rparr>]
     ''French'' 5 False None =
     Inr \<lparr>entries_after =
            [\<lparr>index = 1, start_time = ''00:00:01,000'', end_time = ''00:00:02,000'',
              content = ''Hello'', translated_content = ''Bonjour''\<rparr>],
          stored = [''Bonjour''], dispatched = Some [''Hello'']\<rparr> \<and>
   save_translated_srt fs ''history.srt''
     [\<lparr>index = 1, start_time = ''00:00:01,000'', end_time = ''00:00:02,000'',
       content = ''Hello'', translated_content = ''Bonjour''\<rparr>] ''history.srt'' =
     Some (''1'' @ newline @ ''00:00:01,000 --> 00:00:02,000'' @ newline @
           ''Hello'' @ newline @ ''Bonjour'' @ newline @ newline) \<and>
   translate_entries lib
     (save_translated_srt fs ''history.srt''
        [\<lparr>index = 1, start_time = ''00:00:01,000'', end_time = ''00:00:02,000'',
          content = ''Hello'', translated_content = ''Bonjour''\<rparr>])
     mock_translator
     [\<lparr>index = 1, start_time = ''00:00:01,000'', end_time = ''00:00:02,000'',
       content = ''Hello'', translated_content = ''''\<rparr>]
     ''French'' 5 True (Some ''history.srt'') =
     Inr \<lparr>entries_after =
            [\<lparr>index = 1, start_time = ''00:00:01,000'', end_time = ''00:00:02,000'',
              content = ''Hello'', translated_content = ''Bonjour''\<rparr>],
          stored = [''Bonjour''], dispatched = Some [''Hello'']\<rparr>"
  by (simp add: translate_entries_def load_history_empty translate_entries_with_def
      mock_translator_def save_translated_srt_def format_entry_def py_str_1)



end
